theory Spec2Isabelle
  imports Main
begin

section \<open>Strings\<close>

text \<open>
  JavaScript strings are modelled as \<^typ>\<open>string\<close>. The model covers ASCII text: case
  folding touches the letters A to Z only, and white space is the ASCII white space
  (tab, line feed, vertical tab, form feed, carriage return, space). Characters outside
  ASCII are carried along unchanged.
\<close>

definition toLowerChar :: "char \<Rightarrow> char" where
  "toLowerChar c =
     (let n = (of_char c :: nat) in if 65 \<le> n \<and> n \<le> 90 then char_of (n + 32) else c)"

definition toLowerCase :: "string \<Rightarrow> string" where
  "toLowerCase s = map toLowerChar s"

definition is_space :: "char \<Rightarrow> bool" where
  "is_space c = ((of_char c :: nat) \<in> {9, 10, 11, 12, 13, 32})"

definition is_line_terminator :: "char \<Rightarrow> bool" where
  "is_line_terminator c = ((of_char c :: nat) \<in> {10, 13})"

definition trim :: "string \<Rightarrow> string" where
  "trim s = rev (dropWhile is_space (rev (dropWhile is_space s)))"

definition startsWith :: "string \<Rightarrow> string \<Rightarrow> bool" where
  "startsWith s p = (take (length p) s = p)"

definition endsWith :: "string \<Rightarrow> string \<Rightarrow> bool" where
  "endsWith s p = (length p \<le> length s \<and> drop (length s - length p) s = p)"

fun str_includes :: "string \<Rightarrow> string \<Rightarrow> bool" where
  "str_includes [] p = (p = [])"
| "str_includes (c # cs) p = (startsWith (c # cs) p \<or> str_includes cs p)"

definition slice :: "'a list \<Rightarrow> nat \<Rightarrow> nat \<Rightarrow> 'a list" where
  \<comment> \<open>\<open>xs.slice(a, b)\<close> for \<open>0 \<le> a \<le> b\<close>\<close>
  "slice xs a b = take (b - a) (drop a xs)"

section \<open>utils.js\<close>

subsection \<open>Errors, provider requests and the trace of effects\<close>

text \<open>
  A thrown value carries the two fields the code inspects: \<open>error.code\<close> and
  \<open>error.message\<close>, either of which may be missing.
\<close>

datatype err = Err (code: "int option") (message: "string option")

text \<open>
  The criteria of a provider-side filter: \<open>f.criteria?.from\<close> may be missing at either
  level.
\<close>

datatype criteria = Criteria (crit_from: "string option")

datatype gfilter = GFilter (filter_criteria: "criteria option")

text \<open>A message as \<open>users.messages.get\<close> returns it with \<open>format: 'metadata'\<close>.\<close>

record message =
  payload :: "(string \<times> string) list option"
  labelIds :: "string list option"

datatype request =
    BatchModify "string list" "string list" "string list"
      \<comment> \<open>\<open>ids\<close>, \<open>addLabelIds\<close>, \<open>removeLabelIds\<close>\<close>
  | FiltersList
  | FiltersCreate string "string list" "string list"
      \<comment> \<open>\<open>criteria.from\<close>, \<open>action.addLabelIds\<close>, \<open>action.removeLabelIds\<close>\<close>
  | MessagesGet string

datatype response =
    RDone
  | RFilters "gfilter list option"
  | RMessage message

text \<open>
  Everything the code does to the outside world is recorded in order: a provider call,
  a pass through \<open>RateLimiter.wait()\<close>, a \<open>sleep(ms)\<close>.
\<close>

datatype event = Call request | Wait | Sleep nat

type_synonym trace = "event list"

text \<open>
  The mail provider is a parameter: it answers a request, given everything that has
  happened so far, with a failure or a response.
\<close>

type_synonym gmail = "trace \<Rightarrow> request \<Rightarrow> err + response"

definition api :: "gmail \<Rightarrow> request \<Rightarrow> trace \<Rightarrow> (err + response) \<times> trace" where
  "api gmail req tr = (gmail tr req, tr @ [Call req])"

definition calls_of :: "trace \<Rightarrow> request list" where
  "calls_of tr = concat (map (\<lambda>e. case e of Call r \<Rightarrow> [r] | _ \<Rightarrow> []) tr)"

subsection \<open>withRetry\<close>

definition is_fatal :: "err \<Rightarrow> bool" where
  \<comment> \<open>\<open>error.code === 401 || error.code === 404\<close>\<close>
  "is_fatal e = (code e = Some 401 \<or> code e = Some 404)"

definition is_rate_limit :: "err \<Rightarrow> bool" where
  \<comment> \<open>\<open>error.code === 429 || error.message?.includes('Rate Limit')\<close>\<close>
  "is_rate_limit e =
     (code e = Some 429 \<or> (case message e of None \<Rightarrow> False | Some m \<Rightarrow> str_includes m ''Rate Limit''))"

text \<open>
  The loop \<open>for (attempt = 0; attempt <= maxRetries; attempt++)\<close>, entered at
  \<open>attempt\<close>. The error thrown after the loop is \<open>lastError\<close>, the error of the last
  iteration. A rate-limit failure sleeps before \<open>continue\<close> on the last iteration too.
\<close>

function withRetry_from ::
  "(trace \<Rightarrow> (err + 'a) \<times> trace) \<Rightarrow> nat \<Rightarrow> nat \<Rightarrow> nat \<Rightarrow> trace \<Rightarrow> (err + 'a) \<times> trace" where
  "withRetry_from fn maxRetries baseDelay attempt tr =
     (case fn tr of
        (Inr v, tr') \<Rightarrow> (Inr v, tr')
      | (Inl e, tr') \<Rightarrow>
          if is_fatal e then (Inl e, tr')
          else if is_rate_limit e then
            (if attempt < maxRetries
             then withRetry_from fn maxRetries baseDelay (Suc attempt)
                    (tr' @ [Sleep (baseDelay * 2 ^ (attempt + 2))])
             else (Inl e, tr' @ [Sleep (baseDelay * 2 ^ (attempt + 2))]))
          else
            (if attempt < maxRetries
             then withRetry_from fn maxRetries baseDelay (Suc attempt)
                    (tr' @ [Sleep (baseDelay * 2 ^ attempt)])
             else (Inl e, tr')))"
  by pat_completeness auto
termination
  by (relation "measure (\<lambda>(fn, maxRetries, baseDelay, attempt, tr). Suc maxRetries - attempt)") auto

declare withRetry_from.simps [simp del]

definition withRetry ::
  "(trace \<Rightarrow> (err + 'a) \<times> trace) \<Rightarrow> nat \<Rightarrow> nat \<Rightarrow> trace \<Rightarrow> (err + 'a) \<times> trace" where
  "withRetry fn maxRetries baseDelay tr = withRetry_from fn maxRetries baseDelay 0 tr"

subsection \<open>extractDomain, extractEmail\<close>

text \<open>
  \<open>email.match(/@([^>\s]+)/)\<close>: the leftmost \<open>@\<close> that is followed by at least one
  character other than \<open>>\<close> and white space; the group is the longest such run.
\<close>

fun match_domain :: "string \<Rightarrow> string option" where
  "match_domain [] = None"
| "match_domain (c # cs) =
     (if c = CHR ''@'' \<and> takeWhile (\<lambda>d. d \<noteq> CHR ''>'' \<and> \<not> is_space d) cs \<noteq> []
      then Some (takeWhile (\<lambda>d. d \<noteq> CHR ''>'' \<and> \<not> is_space d) cs)
      else match_domain cs)"

definition extractDomain :: "string \<Rightarrow> string" where
  "extractDomain email = (case match_domain email of Some d \<Rightarrow> toLowerCase d | None \<Rightarrow> [])"








subsection \<open>isProtectedSender, isFromProtectedDomain\<close>

definition sender_matches :: "string \<Rightarrow> string \<Rightarrow> string \<Rightarrow> bool" where
  \<comment> \<open>the callback of \<open>protectedSenders.some\<close>\<close>
  "sender_matches emailLower domain sender =
     (let senderLower = trim (toLowerCase sender) in
      if emailLower = senderLower then True
      else if \<not> str_includes senderLower ''@'' \<and> endsWith domain senderLower then True
      else if startsWith senderLower ''@'' then
        (let senderDomain = drop 1 senderLower
         in domain = senderDomain \<or> endsWith domain (''.'' @ senderDomain))
      else
        (let senderDomain = extractDomain senderLower
         in if senderDomain \<noteq> [] \<and> domain = senderDomain then True else False))"

definition isProtectedSender :: "string \<Rightarrow> string list \<Rightarrow> bool" where
  "isProtectedSender email protectedSenders =
     (let emailLower = toLowerCase email; domain = extractDomain emailLower
      in list_ex (sender_matches emailLower domain) protectedSenders)"

definition PROTECTED_DOMAINS :: "string list" where
  "PROTECTED_DOMAINS =
     [''chase.com'', ''capitalone.com'', ''paypal.com'', ''venmo.com'', ''mercury.com'',
      ''rippling.com'', ''uber.com'', ''lyft.com'', ''doordash.com'', ''google.com'',
      ''github.com'', ''apple.com'', ''citi.com'', ''amex.com'', ''americanexpress.com'',
      ''wellsfargo.com'', ''bankofamerica.com'', ''sutterhealth.org'', ''united.com'',
      ''delta.com'', ''southwest.com'', ''aa.com'']"

definition isFromProtectedDomain :: "string \<Rightarrow> bool" where
  "isFromProtectedDomain email =
     (let domain = extractDomain email
      in list_ex (\<lambda>pd. domain = pd \<or> endsWith domain (''.'' @ pd)) PROTECTED_DOMAINS)"

section \<open>emailAnalyzer.js\<close>

datatype category =
  Vip | Protected | Newsletter | Promotional | Social | Forums | Automated | Receipt
  | Confirmation | Unknown

record analyzer =
  vipEmails :: "string list"
  protectedSenders :: "string list"
  protectedKeywords :: "string list"

definition EmailAnalyzer :: "string list \<Rightarrow> string list \<Rightarrow> string list \<Rightarrow> analyzer" where
  \<comment> \<open>the constructor: every configured entry is lower-cased and trimmed\<close>
  "EmailAnalyzer vip prot kws =
     \<lparr>vipEmails = map (\<lambda>email. trim (toLowerCase email)) vip,
      protectedSenders = map (\<lambda>email. trim (toLowerCase email)) prot,
      protectedKeywords = map (\<lambda>keyword. trim (toLowerCase keyword)) kws\<rparr>"

record analysis =
  an_id :: string
  an_from :: string
  an_fromEmail :: string
  an_subject :: string
  an_labels :: "string list"
  an_category :: category

definition truthy :: "string option \<Rightarrow> bool" where
  \<comment> \<open>a header value in a condition: present and not the empty string\<close>
  "truthy h = (case h of None \<Rightarrow> False | Some v \<Rightarrow> v \<noteq> [])"


definition test_i :: "string \<Rightarrow> string \<Rightarrow> bool" where
  \<comment> \<open>\<open>/pat/i.test(s)\<close> for a pattern of lower-case literal characters\<close>
  "test_i pat s = str_includes (toLowerCase s) pat"

text \<open>
  \<open>/a.*b/i.test(s)\<close> for lower-case literal \<open>a\<close> and \<open>b\<close>: an occurrence of \<open>a\<close>,
  then any characters that are no line terminators, then \<open>b\<close>.
\<close>

fun dot_star_then :: "string \<Rightarrow> string \<Rightarrow> bool" where
  "dot_star_then b [] = (b = [])"
| "dot_star_then b (c # cs) =
     (startsWith (c # cs) b \<or> (\<not> is_line_terminator c \<and> dot_star_then b cs))"

fun search_dot_star :: "string \<Rightarrow> string \<Rightarrow> string \<Rightarrow> bool" where
  "search_dot_star a b [] = (a = [] \<and> b = [])"
| "search_dot_star a b (c # cs) =
     ((startsWith (c # cs) a \<and> dot_star_then b (drop (length a) (c # cs)))
      \<or> search_dot_star a b cs)"

definition test_dot_star_i :: "string \<Rightarrow> string \<Rightarrow> string \<Rightarrow> bool" where
  "test_dot_star_i a b s = search_dot_star a b (toLowerCase s)"

definition categorizeEmail ::
  "analyzer \<Rightarrow> (string \<rightharpoonup> string) \<Rightarrow> string list \<Rightarrow> string \<Rightarrow> string \<Rightarrow> category" where
  "categorizeEmail a headers labels fromEmail subject =
     (if fromEmail \<in> set (vipEmails a) then Vip
      else if fromEmail \<in> set (protectedSenders a) then Protected
      else if list_ex (\<lambda>keyword. str_includes (toLowerCase subject) keyword) (protectedKeywords a)
        then Protected
      else if truthy (headers ''list-unsubscribe'') \<or> truthy (headers ''list-id'') then Newsletter
      else if ''CATEGORY_PROMOTIONS'' \<in> set labels then Promotional
      else if ''CATEGORY_SOCIAL'' \<in> set labels then Social
      else if ''CATEGORY_FORUMS'' \<in> set labels then Forums
      else if list_ex (\<lambda>pattern. test_i pattern fromEmail)
                [''noreply'', ''no-reply'', ''donotreply'', ''automated'', ''notification'',
                 ''alert'', ''system'']
        then Automated
      else if list_ex (\<lambda>pattern. test_i pattern subject)
                [''newsletter'', ''weekly digest'', ''daily digest'', ''update from'',
                 ''news from'']
        then Newsletter
      else if list_ex (\<lambda>pattern. test_i pattern subject)
                [''receipt'', ''payment'', ''invoice'', ''charged'', ''your purchase'']
              \<or> test_dot_star_i ''order'' ''shipped'' subject
              \<or> test_dot_star_i ''order'' ''delivered'' subject
              \<or> str_includes fromEmail ''paypal.com''
              \<or> str_includes fromEmail ''invoice''
              \<or> str_includes fromEmail ''amazon.com''
        then Receipt
      else if list_ex (\<lambda>pattern. test_i pattern subject)
                [''confirmation'', ''confirmed'', ''appointment'', ''reservation'',
                 ''scheduled'', ''registration'']
        then Confirmation
      else Unknown)"




record emailStats =
  total :: nat
  fromVIP :: "analysis list"
  protected :: "analysis list"
  newsletters :: "analysis list"
  promotional :: "analysis list"
  social :: "analysis list"
  forums :: "analysis list"
  automated :: "analysis list"
  receipts :: "analysis list"
  confirmations :: "analysis list"
  personal :: "analysis list"
  unknown :: "analysis list"

section \<open>emailFilter.js\<close>

record label =
  label_id :: string
  label_name :: string

definition EmailFilter :: "string list \<Rightarrow> string list" where
  \<comment> \<open>the constructor's \<open>this.protectedSenders\<close>\<close>
  "EmailFilter prot = map (\<lambda>email. trim (toLowerCase email)) prot"

definition EmailFilter_isProtectedSender :: "string list \<Rightarrow> string \<Rightarrow> bool" where
  "EmailFilter_isProtectedSender prot email =
     (isProtectedSender email prot \<or> isFromProtectedDomain email)"

text \<open>
  The mutable part of an \<open>EmailFilter\<close> is the cache \<open>this.existingFilters\<close>
  (\<open>null\<close> until the first successful listing); it is threaded together with the trace.
\<close>

type_synonym fstate = "gfilter list option \<times> trace"

definition getExistingFilters :: "gmail \<Rightarrow> fstate \<Rightarrow> (err + gfilter list) \<times> fstate" where
  "getExistingFilters gmail st =
     (case st of
        (Some fs, tr) \<Rightarrow> (Inr fs, (Some fs, tr))
      | (None, tr) \<Rightarrow>
          (case api gmail FiltersList tr of
             (Inl e, tr') \<Rightarrow> (Inl e, (None, tr'))
           | (Inr response, tr') \<Rightarrow>
               (let fs = (case response of RFilters (Some fs) \<Rightarrow> fs | _ \<Rightarrow> [])
                in (Inr fs, (Some fs, tr')))))"

definition criteria_from_is :: "string \<Rightarrow> gfilter \<Rightarrow> bool" where
  \<comment> \<open>\<open>f.criteria?.from === from\<close>\<close>
  "criteria_from_is from f =
     (case filter_criteria f of None \<Rightarrow> False | Some c \<Rightarrow> crit_from c = Some from)"

definition filterExists :: "gmail \<Rightarrow> string \<Rightarrow> fstate \<Rightarrow> (err + bool) \<times> fstate" where
  "filterExists gmail from st =
     (case getExistingFilters gmail st of
        (Inl e, st') \<Rightarrow> (Inl e, st')
      | (Inr filters, st') \<Rightarrow> (Inr (list_ex (criteria_from_is from) filters), st'))"

subsection \<open>applyLabel, archiveMessages\<close>

text \<open>
  The loop \<open>for (i = 0; i < messageIds.length; i += batchSize)\<close> with
  \<open>batchSize = 50\<close>, entered at \<open>i\<close>; \<open>mk\<close> builds the request body from the batch.
  The \<open>catch\<close> around the call logs the error and goes on with the next batch.
\<close>

function batch_loop ::
  "gmail \<Rightarrow> (string list \<Rightarrow> request) \<Rightarrow> string list \<Rightarrow> nat \<Rightarrow> trace \<Rightarrow> trace" where
  "batch_loop gmail mk messageIds i tr =
     (if i < length messageIds
      then (case api gmail (mk (slice messageIds i (i + 50))) tr of
              (Inl error, tr') \<Rightarrow> batch_loop gmail mk messageIds (i + 50) tr'
            | (Inr response, tr') \<Rightarrow> batch_loop gmail mk messageIds (i + 50) tr')
      else tr)"
  by pat_completeness auto
termination
  by (relation "measure (\<lambda>(gmail, mk, messageIds, i, tr). length messageIds - i)") auto

declare batch_loop.simps [simp del]

definition applyLabel :: "gmail \<Rightarrow> string list option \<Rightarrow> string \<Rightarrow> trace \<Rightarrow> trace" where
  "applyLabel gmail messageIds labelId tr =
     (case messageIds of
        None \<Rightarrow> tr
      | Some ids \<Rightarrow>
          if length ids = 0 then tr
          else batch_loop gmail (\<lambda>batch. BatchModify batch [labelId] []) ids 0 tr)"

definition archiveMessages :: "gmail \<Rightarrow> string list option \<Rightarrow> trace \<Rightarrow> trace" where
  "archiveMessages gmail messageIds tr =
     (case messageIds of
        None \<Rightarrow> tr
      | Some ids \<Rightarrow>
          if length ids = 0 then tr
          else batch_loop gmail (\<lambda>batch. BatchModify batch [] [''INBOX'']) ids 0 tr)"

subsection \<open>getFrequentSenders\<close>

text \<open>
  \<open>senderCount\<close> is a plain object used as a counter. Its keys are kept in insertion
  order; \<open>Object.entries\<close> lists the keys that are array indices first, in ascending
  numeric order, then the others in insertion order. A key that names a property
  inherited from \<open>Object.prototype\<close> never gets a numeric count (the inherited value is
  truthy, so \<open>1\<close> is appended to it as text), and never passes \<open>count >= minFrequency\<close>.
\<close>

fun bump :: "string \<Rightarrow> (string \<times> nat) list \<Rightarrow> (string \<times> nat) list" where
  "bump k [] = [(k, 1)]"
| "bump k ((k', n) # rest) = (if k' = k then (k', n + 1) # rest else (k', n) # bump k rest)"

definition senderCount :: "analysis list \<Rightarrow> (string \<times> nat) list" where
  "senderCount emails =
     fold (\<lambda>email acc. if an_fromEmail email \<noteq> [] then bump (an_fromEmail email) acc else acc)
       emails []"

definition is_digit :: "char \<Rightarrow> bool" where
  "is_digit c = (48 \<le> (of_char c :: nat) \<and> (of_char c :: nat) \<le> 57)"

definition decimal :: "string \<Rightarrow> nat" where
  "decimal s = foldl (\<lambda>n c. 10 * n + ((of_char c :: nat) - 48)) 0 s"

definition is_array_index :: "string \<Rightarrow> bool" where
  "is_array_index s =
     (s \<noteq> [] \<and> list_all is_digit s \<and> (s = ''0'' \<or> hd s \<noteq> CHR ''0'') \<and> decimal s < 4294967295)"

definition Object_entries :: "(string \<times> 'v) list \<Rightarrow> (string \<times> 'v) list" where
  "Object_entries kvs =
     sort_key (\<lambda>(k, v). decimal k) (filter (\<lambda>(k, v). is_array_index k) kvs)
     @ filter (\<lambda>(k, v). \<not> is_array_index k) kvs"

definition Object_prototype_keys :: "string list" where
  "Object_prototype_keys =
     [''constructor'', ''toString'', ''toLocaleString'', ''valueOf'', ''hasOwnProperty'',
      ''isPrototypeOf'', ''propertyIsEnumerable'', ''__proto__'', ''__defineGetter__'',
      ''__defineSetter__'', ''__lookupGetter__'', ''__lookupSetter__'']"

definition getFrequentSenders :: "analysis list \<Rightarrow> nat \<Rightarrow> string list" where
  "getFrequentSenders emails minFrequency =
     map fst
       (filter (\<lambda>(sender, count). count \<ge> minFrequency \<and> sender \<notin> set Object_prototype_keys)
          (Object_entries (senderCount emails)))"

subsection \<open>createFilters\<close>

definition typeError :: err where
  \<comment> \<open>reading \<open>.id\<close> of a label that is not there\<close>
  "typeError = Err None (Some ''Cannot read properties of undefined'')"

definition create_filter ::
  "gmail \<Rightarrow> (string \<rightharpoonup> label) \<Rightarrow> string \<Rightarrow> string \<Rightarrow> trace \<Rightarrow> (err + response) \<times> trace" where
  \<comment> \<open>the operation handed to \<open>withRetry\<close>\<close>
  "create_filter gmail labels labelName sender tr =
     (case labels labelName of
        None \<Rightarrow> (Inl typeError, tr)
      | Some l \<Rightarrow> api gmail (FiltersCreate sender [label_id l] [''INBOX'']) tr)"

text \<open>
  One of the three \<open>for (const sender of ...)\<close> loops; they differ in the label only.
  \<open>filterExists\<close> is awaited outside the \<open>try\<close>, so its failure leaves \<open>createFilters\<close>.
\<close>

fun create_loop ::
  "gmail \<Rightarrow> string list \<Rightarrow> (string \<rightharpoonup> label) \<Rightarrow> string \<Rightarrow> string list \<Rightarrow> nat \<Rightarrow> fstate
     \<Rightarrow> (err + nat) \<times> fstate" where
  "create_loop gmail prot labels labelName [] createdCount st = (Inr createdCount, st)"
| "create_loop gmail prot labels labelName (sender # rest) createdCount st =
     (case filterExists gmail sender st of
        (Inl e, st') \<Rightarrow> (Inl e, st')
      | (Inr True, st') \<Rightarrow> create_loop gmail prot labels labelName rest createdCount st'
      | (Inr False, (cache, tr)) \<Rightarrow>
          if EmailFilter_isProtectedSender prot sender
          then create_loop gmail prot labels labelName rest createdCount (cache, tr)
          else
            (case withRetry (create_filter gmail labels labelName sender) 3 1000 (tr @ [Wait]) of
               (Inr response, tr') \<Rightarrow>
                 create_loop gmail prot labels labelName rest (createdCount + 1) (cache, tr')
             | (Inl error, tr') \<Rightarrow>
                 create_loop gmail prot labels labelName rest createdCount (cache, tr')))"

definition create_for ::
  "gmail \<Rightarrow> string list \<Rightarrow> (string \<rightharpoonup> label) \<Rightarrow> string \<Rightarrow> analysis list \<Rightarrow> nat \<Rightarrow> fstate
     \<Rightarrow> (err + nat) \<times> fstate" where
  \<comment> \<open>\<open>if (emails.length > 5) { for (const sender of getFrequentSenders(emails, 3)) ... }\<close>\<close>
  "create_for gmail prot labels labelName emails createdCount st =
     (if length emails > 5
      then create_loop gmail prot labels labelName (getFrequentSenders emails 3) createdCount st
      else (Inr createdCount, st))"

definition createFilters ::
  "gmail \<Rightarrow> string list \<Rightarrow> emailStats \<Rightarrow> (string \<rightharpoonup> label) \<Rightarrow> fstate \<Rightarrow> (err + nat) \<times> fstate" where
  "createFilters gmail prot analysisResults labels st =
     (case create_for gmail prot labels ''Filtered/Newsletters'' (newsletters analysisResults) 0 st of
        (Inl e, st1) \<Rightarrow> (Inl e, st1)
      | (Inr c1, st1) \<Rightarrow>
          (case create_for gmail prot labels ''Filtered/Promotional''
                  (promotional analysisResults) c1 st1 of
             (Inl e, st2) \<Rightarrow> (Inl e, st2)
           | (Inr c2, st2) \<Rightarrow>
               create_for gmail prot labels ''Filtered/Automated''
                 (automated analysisResults) c2 st2))"

section \<open>checkpoint.js\<close>

text \<open>
  A checkpoint is a JSON object. The checkpoint file either cannot be read and parsed
  (\<open>None\<close>) or holds the object last saved; \<open>JSON.parse\<close> after \<open>JSON.stringify\<close> gives
  back an object of nulls, numbers and strings as it was. The clock is a parameter.
\<close>

datatype jsval = JNull | JNum int | JStr string

type_synonym checkpoint = "string \<rightharpoonup> jsval"

definition default_checkpoint :: checkpoint where
  "default_checkpoint =
     [''lastProcessedDate'' \<mapsto> JNull, ''totalProcessed'' \<mapsto> JNum 0, ''lastRun'' \<mapsto> JNull]"

definition loadCheckpoint :: "checkpoint option \<Rightarrow> checkpoint" where
  "loadCheckpoint file = (case file of Some data \<Rightarrow> data | None \<Rightarrow> default_checkpoint)"

definition saveCheckpoint :: "checkpoint \<Rightarrow> checkpoint option \<Rightarrow> checkpoint option" where
  "saveCheckpoint c file = Some c"

definition updateCheckpoint ::
  "string \<Rightarrow> checkpoint \<Rightarrow> checkpoint option \<Rightarrow> checkpoint \<times> checkpoint option" where
  "updateCheckpoint now newData file =
     (let current = loadCheckpoint file;
          updated = (current ++ newData)(''lastRun'' \<mapsto> JStr now)
      in (updated, saveCheckpoint updated file))"

section \<open>Notions used to state the properties\<close>

text \<open>
  Consecutive chunks of fifty: the first fifty elements, then the chunks of the rest.
\<close>

function chunks :: "'a list \<Rightarrow> 'a list list" where
  "chunks xs = (if xs = [] then [] else take 50 xs # chunks (drop 50 xs))"
  by pat_completeness auto
termination
  by (relation "measure length") auto

declare chunks.simps [simp del]

text \<open>
  An operation for \<open>withRetry\<close> whose outcome depends on how often it has been invoked:
  the invocation number \<open>k\<close> (from \<open>0\<close>) ends as \<open>f k\<close>, and every invocation is recorded.
\<close>

definition scripted :: "(nat \<Rightarrow> err + 'a) \<Rightarrow> request \<Rightarrow> trace \<Rightarrow> (err + 'a) \<times> trace" where
  "scripted f req tr = (f (length (calls_of tr)), tr @ [Call req])"

text \<open>
  What the specification asks of one chunk call: \<open>RateLimiter.wait()\<close>, then the call
  under the retry policy with its defaults.
\<close>

definition mutate_chunk_spec :: "gmail \<Rightarrow> request \<Rightarrow> trace \<Rightarrow> (err + response) \<times> trace" where
  "mutate_chunk_spec gmail req tr = withRetry (api gmail req) 3 1000 (tr @ [Wait])"

text \<open>A provider that answers every request with a server error.\<close>

definition failing_gmail :: gmail where
  "failing_gmail tr req = Inl (Err (Some 500) None)"

text \<open>How many messages of a list come from a sender.\<close>

definition frequency :: "string \<Rightarrow> analysis list \<Rightarrow> nat" where
  "frequency s emails = length (filter (\<lambda>email. an_fromEmail email = s) emails)"

text \<open>The create requests whose \<open>from\<close> criterion lies in a set of senders.\<close>

definition creates_for :: "string set \<Rightarrow> request set" where
  "creates_for S = {c. \<exists>s x y. s \<in> S \<and> c = FiltersCreate s x y}"

text \<open>The count a sender has in a counter (zero when it has no entry).\<close>

definition counted :: "(string \<times> nat) list \<Rightarrow> string \<Rightarrow> nat" where
  "counted acc s = (case map_of acc s of None \<Rightarrow> 0 | Some n \<Rightarrow> n)"

text \<open>
  Inputs for the examples: a message classified as a newsletter from a given sender,
  analysis results with newsletters only, a provider that lists the given filters and
  accepts every other request, the label map with the newsletter label, and a message
  whose only header is a date.
\<close>

definition newsletter_from :: "string \<Rightarrow> analysis" where
  "newsletter_from sender =
     \<lparr>an_id = ''m'', an_from = sender, an_fromEmail = sender, an_subject = [],
      an_labels = [], an_category = Newsletter\<rparr>"

definition stats_of_newsletters :: "analysis list \<Rightarrow> emailStats" where
  "stats_of_newsletters ns =
     \<lparr>total = length ns, fromVIP = [], protected = [], newsletters = ns, promotional = [],
      social = [], forums = [], automated = [], receipts = [], confirmations = [],
      personal = [], unknown = []\<rparr>"

definition listing_gmail :: "gfilter list \<Rightarrow> gmail" where
  "listing_gmail fs tr req = (case req of FiltersList \<Rightarrow> Inr (RFilters (Some fs)) | _ \<Rightarrow> Inr RDone)"

definition newsletters_label :: "string \<rightharpoonup> label" where
  "newsletters_label =
     [''Filtered/Newsletters'' \<mapsto> \<lparr>label_id = ''Label_1'', label_name = ''Filtered/Newsletters''\<rparr>]"



section \<open>Traces\<close>

lemma calls_of_simps [simp]:
  "calls_of [] = []"
  "calls_of (Call r # tr) = r # calls_of tr"
  "calls_of (Sleep n # tr) = calls_of tr"
  "calls_of (Wait # tr) = calls_of tr"
  "calls_of (a @ b) = calls_of a @ calls_of b"
  by (simp_all add: calls_of_def)

lemma calls_of_map_Call [simp]: "calls_of (map (\<lambda>b. Call (f b)) bs) = map f bs"
  by (induction bs) simp_all

section \<open>Classification\<close>

lemma categorizeEmail_range:
  "categorizeEmail a headers labels fromEmail subject
     \<in> {Vip, Protected, Newsletter, Promotional, Social, Forums, Automated, Receipt,
        Confirmation, Unknown}"
  by (cases "categorizeEmail a headers labels fromEmail subject") simp_all

lemma categorizeEmail_protected_rule:
  assumes v: "fromEmail \<notin> set (vipEmails a)"
    and p: "fromEmail \<in> set (protectedSenders a)
         \<or> (\<exists>keyword \<in> set (protectedKeywords a). str_includes (toLowerCase subject) keyword)"
  shows "categorizeEmail a headers labels fromEmail subject = Protected"
proof (cases "fromEmail \<in> set (protectedSenders a)")
  case True
  show ?thesis by (simp only: categorizeEmail_def v True if_True if_False)
next
  case False
  with p have k: "list_ex (\<lambda>keyword. str_includes (toLowerCase subject) keyword) (protectedKeywords a)"
    by (simp add: list_ex_iff)
  show ?thesis by (simp only: categorizeEmail_def v False k if_True if_False)
qed

text \<open>
  The sender and keyword rules: for a sender that is no VIP sender, a \<open>fromEmail\<close>
  found in the protected senders, or a lower-cased subject that contains a protected
  keyword, gives \<open>protected\<close>, whatever the later heuristics would say.
\<close>

lemma categorizeEmail_sender_keyword_example:
  "categorizeEmail (EmailAnalyzer [] [''Service@PayPal.com ''] []) Map.empty []
     ''service@paypal.com'' ''winner!!! claim your prize'' = Protected"
proof -
  have s: "''service@paypal.com'' \<in> set (protectedSenders (EmailAnalyzer [] [''Service@PayPal.com ''] []))"
    by code_simp
  have v: "''service@paypal.com'' \<notin> set (vipEmails (EmailAnalyzer [] [''Service@PayPal.com ''] []))"
    by (simp add: EmailAnalyzer_def)
  show ?thesis
    by (rule categorizeEmail_protected_rule) (rule v, rule disjI1, rule s)
qed

text \<open>
  C1. \<open>categorizeEmail\<close> never consults the protected domains. The sender
  \<open>service@paypal.com\<close> is in a protected domain (and \<open>EmailFilter.isProtectedSender\<close>
  says so), yet with the subject "winner!!! claim your prize" and no protected sender
  configured it is classified as a receipt, not as protected. The sender
  \<open>alerts@billing.chase.com\<close>, in a subdomain of a protected domain, is classified as
  automated.
\<close>

theorem categorizeEmail_ignores_protected_domain:
  "isFromProtectedDomain ''service@paypal.com''
   \<and> EmailFilter_isProtectedSender [] ''service@paypal.com''
   \<and> categorizeEmail (EmailAnalyzer [] [] []) Map.empty [] ''service@paypal.com''
        ''winner!!! claim your prize'' = Receipt
   \<and> isFromProtectedDomain ''alerts@billing.chase.com''
   \<and> categorizeEmail (EmailAnalyzer [] [] []) Map.empty [] ''alerts@billing.chase.com''
        ''winner!!! claim your prize'' = Automated"
  by code_simp

section \<open>Domain matching\<close>

text \<open>
  The two examples of the specification hold for both matchers.
\<close>

lemma domain_suffix_examples:
  "isProtectedSender ''alerts@billing.chase.com'' [''chase.com'']"
  "\<not> isProtectedSender ''someone@chase.com.evil.net'' [''chase.com'']"
  "isFromProtectedDomain ''alerts@billing.chase.com''"
  "\<not> isFromProtectedDomain ''someone@chase.com.evil.net''"
  by code_simp+

text \<open>
  C2. For a pattern without \<open>@\<close>, \<open>isProtectedSender\<close> tests \<open>domain.endsWith(pattern)\<close>
  with no dot in front: the address \<open>someone@notchase.com\<close> matches the pattern
  \<open>chase.com\<close>, though its domain is neither \<open>chase.com\<close> nor ends with \<open>.chase.com\<close>.
  \<open>isFromProtectedDomain\<close>, which puts the dot, does not match it.
\<close>

theorem isProtectedSender_suffix_without_dot:
  "isProtectedSender ''someone@notchase.com'' [''chase.com'']
   \<and> \<not> str_includes ''chase.com'' ''@''
   \<and> extractDomain ''someone@notchase.com'' \<noteq> ''chase.com''
   \<and> \<not> endsWith (extractDomain ''someone@notchase.com'') (''.'' @ ''chase.com'')
   \<and> \<not> isFromProtectedDomain ''someone@notchase.com''"
  by code_simp

section \<open>The retry policy\<close>

lemma withRetry_from_ok:
  "f (length (calls_of tr)) = Inr v
   \<Longrightarrow> withRetry_from (scripted f req) m d a tr = (Inr v, tr @ [Call req])"
  by (subst withRetry_from.simps) (simp add: scripted_def)

lemma withRetry_from_fatal:
  "f (length (calls_of tr)) = Inl e \<Longrightarrow> is_fatal e
   \<Longrightarrow> withRetry_from (scripted f req) m d a tr = (Inl e, tr @ [Call req])"
  by (subst withRetry_from.simps) (simp add: scripted_def)

lemma withRetry_from_retry:
  "f (length (calls_of tr)) = Inl e \<Longrightarrow> \<not> is_fatal e \<Longrightarrow> a < m \<Longrightarrow>
   withRetry_from (scripted f req) m d a tr =
   withRetry_from (scripted f req) m d (Suc a)
     (tr @ [Call req, Sleep (if is_rate_limit e then d * 2 ^ (a + 2) else d * 2 ^ a)])"
  by (subst withRetry_from.simps) (simp add: scripted_def)

text \<open>
  When every invocation from attempt \<open>a\<close> on fails with an error that is not fatal, the
  loop runs to the last attempt and returns the error of that last invocation.
\<close>

lemma withRetry_from_exhaust:
  "\<lbrakk>a \<le> m; \<forall>j \<le> m - a. \<exists>e. f (length (calls_of tr) + j) = Inl e \<and> \<not> is_fatal e\<rbrakk>
   \<Longrightarrow> fst (withRetry_from (scripted f req) m d a tr) = f (length (calls_of tr) + (m - a))
     \<and> length (calls_of (snd (withRetry_from (scripted f req) m d a tr)))
         = length (calls_of tr) + (m - a) + 1"
proof (induction "m - a" arbitrary: a tr)
  case 0
  then have am: "a = m" by simp
  from 0 obtain e where e: "f (length (calls_of tr)) = Inl e" "\<not> is_fatal e" by auto
  show ?case
    by (subst (1 2) withRetry_from.simps) (simp add: scripted_def e am)
next
  case (Suc k)
  then have lt: "a < m" and k: "k = m - Suc a" by auto
  from Suc.prems obtain e where e: "f (length (calls_of tr)) = Inl e" "\<not> is_fatal e"
    by (metis add.right_neutral zero_le)
  let ?d = "if is_rate_limit e then d * 2 ^ (a + 2) else d * 2 ^ a"
  let ?tr = "tr @ [Call req, Sleep ?d]"
  have step: "withRetry_from (scripted f req) m d a tr
                = withRetry_from (scripted f req) m d (Suc a) ?tr"
    using e lt by (rule withRetry_from_retry)
  have cnt: "length (calls_of ?tr) = Suc (length (calls_of tr))"
    by simp
  have "\<forall>j \<le> m - Suc a. \<exists>e. f (length (calls_of ?tr) + j) = Inl e \<and> \<not> is_fatal e"
  proof (intro allI impI)
    fix j assume "j \<le> m - Suc a"
    then have "Suc j \<le> m - a" using lt by simp
    with Suc.prems(2) have "\<exists>e. f (length (calls_of tr) + Suc j) = Inl e \<and> \<not> is_fatal e"
      by blast
    then show "\<exists>e. f (length (calls_of ?tr) + j) = Inl e \<and> \<not> is_fatal e"
      by (simp add: cnt)
  qed
  from Suc.hyps(1)[OF k _ this] lt
  show ?case unfolding step cnt by (simp add: Suc_diff_Suc)
qed

lemma withRetry_first_success:
  "fn tr = (Inr v, tr') \<Longrightarrow> withRetry fn m d tr = (Inr v, tr')"
  unfolding withRetry_def by (subst withRetry_from.simps) simp

text \<open>
  Whatever the operation adds to the provider calls, \<open>withRetry\<close> adds nothing else.
\<close>

lemma withRetry_from_calls:
  assumes "\<And>tr. set (calls_of (snd (fn tr))) \<subseteq> set (calls_of tr) \<union> C"
  shows "set (calls_of (snd (withRetry_from fn m d a tr))) \<subseteq> set (calls_of tr) \<union> C"
  using assms
proof (induction fn m d a tr rule: withRetry_from.induct)
  case (1 fn maxRetries baseDelay attempt tr)
  obtain r tr' where f: "fn tr = (r, tr')" by (cases "fn tr")
  have s: "set (calls_of tr') \<subseteq> set (calls_of tr) \<union> C"
    using "1.prems"[of tr] f by simp
  show ?case
  proof (cases r)
    case (Inr v)
    then show ?thesis using s f by (subst withRetry_from.simps) simp
  next
    case (Inl e)
    show ?thesis
    proof (cases "is_fatal e \<or> \<not> attempt < maxRetries")
      case True
      then show ?thesis using s f Inl by (subst withRetry_from.simps) auto
    next
      case False
      then have nf: "\<not> is_fatal e" and lt: "attempt < maxRetries" by simp_all
      show ?thesis
      proof (cases "is_rate_limit e")
        case True
        have "set (calls_of (snd (withRetry_from fn maxRetries baseDelay (Suc attempt)
                    (tr' @ [Sleep (baseDelay * 2 ^ (attempt + 2))]))))
              \<subseteq> set (calls_of (tr' @ [Sleep (baseDelay * 2 ^ (attempt + 2))])) \<union> C"
          using "1.IH"(1)[OF f[symmetric] Inl nf True lt] "1.prems" by simp
        then show ?thesis
          using s f Inl nf lt True by (subst withRetry_from.simps) auto
      next
        case False
        have "set (calls_of (snd (withRetry_from fn maxRetries baseDelay (Suc attempt)
                    (tr' @ [Sleep (baseDelay * 2 ^ attempt)]))))
              \<subseteq> set (calls_of (tr' @ [Sleep (baseDelay * 2 ^ attempt)])) \<union> C"
          using "1.IH"(2)[OF f[symmetric] Inl nf False lt] "1.prems" by simp
        then show ?thesis
          using s f Inl nf lt False by (subst withRetry_from.simps) auto
      qed
    qed
  qed
qed

text \<open>
  C4. With \<open>maxRetries = 3\<close>, an operation whose first two invocations fail (with
  errors that are neither 401 nor 404) and whose third succeeds is invoked exactly three
  times, and \<open>withRetry\<close> returns its result. An operation that fails with 401 or 404
  is invoked exactly once, and that error is thrown at once. When all \<open>maxRetries + 1\<close>
  invocations fail with other errors, the error of the last invocation is thrown.
\<close>

theorem withRetry_policy:
  "(f 0 = Inl e1 \<and> \<not> is_fatal e1 \<and> f 1 = Inl e2 \<and> \<not> is_fatal e2 \<and> f 2 = Inr v \<longrightarrow>
      fst (withRetry (scripted f req) 3 d []) = Inr v
      \<and> length (calls_of (snd (withRetry (scripted f req) 3 d []))) = 3)
   \<and> (f 0 = Inl e \<and> is_fatal e \<longrightarrow>
        withRetry (scripted f req) m d [] = (Inl e, [Call req]))
   \<and> ((\<forall>j \<le> m. \<exists>e. f j = Inl e \<and> \<not> is_fatal e) \<longrightarrow>
        fst (withRetry (scripted f req) m d []) = f m
        \<and> length (calls_of (snd (withRetry (scripted f req) m d []))) = m + 1)"
proof (intro conjI impI)
  assume a: "f 0 = Inl e1 \<and> \<not> is_fatal e1 \<and> f 1 = Inl e2 \<and> \<not> is_fatal e2 \<and> f 2 = Inr v"
  then have r: "withRetry (scripted f req) 3 d []
      = (Inr v, [Call req, Sleep (if is_rate_limit e1 then d * 2 ^ 2 else d * 2 ^ 0),
                 Call req, Sleep (if is_rate_limit e2 then d * 2 ^ 3 else d * 2 ^ 1),
                 Call req])"
    by (simp add: withRetry_def withRetry_from_retry withRetry_from_ok numeral_3_eq_3
        numeral_2_eq_2)
  show "fst (withRetry (scripted f req) 3 d []) = Inr v"
    by (simp add: r)
  show "length (calls_of (snd (withRetry (scripted f req) 3 d []))) = 3"
    by (simp add: r)
next
  assume "f 0 = Inl e \<and> is_fatal e"
  then show "withRetry (scripted f req) m d [] = (Inl e, [Call req])"
    by (simp add: withRetry_def withRetry_from_fatal)
next
  assume a: "\<forall>j \<le> m. \<exists>e. f j = Inl e \<and> \<not> is_fatal e"
  from withRetry_from_exhaust[of 0 m f "[]" req d] a
  show "fst (withRetry (scripted f req) m d []) = f m"
    and "length (calls_of (snd (withRetry (scripted f req) m d []))) = m + 1"
    by (simp_all add: withRetry_def)
qed

theorem withRetry_policy_witness:
  "fst (withRetry (scripted (\<lambda>k. if k < 2 then Inl (Err (Some 500) None) else Inr RDone)
          FiltersList) 3 1000 []) = Inr RDone
   \<and> length (calls_of (snd (withRetry
          (scripted (\<lambda>k. if k < 2 then Inl (Err (Some 500) None) else Inr RDone)
             FiltersList) 3 1000 []))) = 3
   \<and> withRetry (scripted (\<lambda>k. Inl (Err (Some 404) None) :: err + response) FiltersList) 3 1000 []
      = (Inl (Err (Some 404) None), [Call FiltersList])
   \<and> fst (withRetry (scripted (\<lambda>k. Inl (Err (Some (500 + int k)) None) :: err + response)
            FiltersList) 3 1000 []) = Inl (Err (Some 503) None)
   \<and> length (calls_of (snd (withRetry
          (scripted (\<lambda>k. Inl (Err (Some (500 + int k)) None) :: err + response)
             FiltersList) 3 1000 []))) = 4"
  using withRetry_policy
          [of "\<lambda>k. if k < 2 then Inl (Err (Some 500) None) else Inr RDone"
              "Err (Some 500) None" "Err (Some 500) None" RDone FiltersList 1000
              "Err (Some 500) None" 3]
        withRetry_policy
          [of "\<lambda>k. Inl (Err (Some 404) None)" "Err (Some 404) None" "Err (Some 404) None"
              RDone FiltersList 1000 "Err (Some 404) None" 3]
        withRetry_policy
          [of "\<lambda>k. Inl (Err (Some (500 + int k)) None)" "Err (Some 500) None"
              "Err (Some 500) None" RDone FiltersList 1000 "Err (Some 404) None" 3]
  by (simp add: is_fatal_def)

section \<open>Batch mutation\<close>

lemma batch_loop_trace:
  "batch_loop gmail mk ids i tr = tr @ map (\<lambda>b. Call (mk b)) (chunks (drop i ids))"
proof (induction gmail mk ids i tr rule: batch_loop.induct)
  case (1 gmail mk messageIds i tr)
  show ?case
  proof (cases "i < length messageIds")
    case False
    then show ?thesis
      by (subst batch_loop.simps, subst chunks.simps) simp
  next
    case True
    obtain r tr' where a: "api gmail (mk (slice messageIds i (i + 50))) tr = (r, tr')"
      by (cases "api gmail (mk (slice messageIds i (i + 50))) tr")
    then have tr': "tr' = tr @ [Call (mk (slice messageIds i (i + 50)))]"
      by (simp add: api_def)
    have next_step:
      "batch_loop gmail mk messageIds i tr = batch_loop gmail mk messageIds (i + 50) tr'"
      by (subst batch_loop.simps) (simp add: True a split: sum.splits)
    have ih: "batch_loop gmail mk messageIds (i + 50) tr'
                = tr' @ map (\<lambda>b. Call (mk b)) (chunks (drop (i + 50) messageIds))"
    proof (cases r)
      case (Inl e)
      with "1.IH"(1)[OF True a[symmetric]] show ?thesis by simp
    next
      case (Inr v)
      with "1.IH"(2)[OF True a[symmetric]] show ?thesis by simp
    qed
    have c: "chunks (drop i messageIds)
            = slice messageIds i (i + 50) # chunks (drop (i + 50) messageIds)"
      using True by (subst chunks.simps) (simp add: slice_def add.commute)
    show ?thesis
      unfolding next_step ih c by (simp add: tr')
  qed
qed

lemma concat_chunks: "concat (chunks xs) = xs"
proof (induction xs rule: chunks.induct)
  case (1 xs)
  then show ?case by (subst chunks.simps) simp
qed

lemma length_chunks:
  "map length (chunks xs)
     = replicate (length xs div 50) 50 @ (if length xs mod 50 = 0 then [] else [length xs mod 50])"
proof (induction xs rule: chunks.induct)
  case (1 xs)
  show ?case
  proof (cases "xs = []")
    case True
    then show ?thesis by (subst chunks.simps) simp
  next
    case False
    note ih = "1.IH"[OF False]
    show ?thesis
    proof (cases "50 \<le> length xs")
      case True
      then have d: "length xs div 50 = Suc ((length xs - 50) div 50)"
        and m: "length xs mod 50 = (length xs - 50) mod 50"
        by (simp_all add: le_div_geq le_mod_geq)
      show ?thesis
        by (subst chunks.simps) (use False True ih in \<open>simp add: d m min_def\<close>)
    next
      case False
      with \<open>xs \<noteq> []\<close> show ?thesis
        by (subst chunks.simps, subst chunks.simps) (simp add: min_def)
    qed
  qed
qed

lemma applyLabel_trace:
  "applyLabel gmail (Some ids) labelId tr
     = tr @ map (\<lambda>batch. Call (BatchModify batch [labelId] [])) (chunks ids)"
  by (cases "ids = []") (simp_all add: applyLabel_def batch_loop_trace chunks.simps[of "[]"])

lemma archiveMessages_trace:
  "archiveMessages gmail (Some ids) tr
     = tr @ map (\<lambda>batch. Call (BatchModify batch [] [''INBOX''])) (chunks ids)"
  by (cases "ids = []") (simp_all add: archiveMessages_def batch_loop_trace chunks.simps[of "[]"])

text \<open>
  C5, as the code has it. For every chunk of message ids, \<open>applyLabel\<close> and
  \<open>archiveMessages\<close> issue the provider call exactly once and directly, whatever the
  provider answers: there is no pass through \<open>RateLimiter.wait()\<close>, no retry and no
  back-off, and nothing else happens between two chunk calls.
\<close>

theorem batch_calls_direct:
  "applyLabel gmail (Some ids) labelId tr
     = tr @ map (\<lambda>batch. Call (BatchModify batch [labelId] [])) (chunks ids)
   \<and> archiveMessages gmail (Some ids) tr
     = tr @ map (\<lambda>batch. Call (BatchModify batch [] [''INBOX''])) (chunks ids)"
  by (simp only: applyLabel_trace archiveMessages_trace)

theorem batch_calls_direct_witness:
  "applyLabel failing_gmail (Some [''m1'', ''m2'']) ''Label_7'' [Wait]
     = [Wait, Call (BatchModify [''m1'', ''m2''] [''Label_7''] [])]
   \<and> archiveMessages failing_gmail (Some [''m1'', ''m2'']) [Wait]
     = [Wait, Call (BatchModify [''m1'', ''m2''] [] [''INBOX''])]"
proof -
  have c: "chunks [''m1'', ''m2''] = [[''m1'', ''m2'']]"
    by (simp add: chunks.simps[of "_ # _"] chunks.simps[of "[]"])
  show ?thesis
    using batch_calls_direct[of failing_gmail "[''m1'', ''m2'']" "''Label_7''" "[Wait]"]
    by (simp add: c)
qed

text \<open>
  C5, as it is stated, fails. Against a provider that answers with a server error, the
  one chunk of \<open>applyLabel\<close> and of \<open>archiveMessages\<close> is called once, with no wait
  before it and no second attempt; the same call passed through \<open>RateLimiter.wait()\<close>
  and the retry policy is made four times, with back-off in between.
\<close>

theorem batch_not_retried:
  "applyLabel failing_gmail (Some [''m1'']) ''L'' [] = [Call (BatchModify [''m1''] [''L''] [])]
   \<and> archiveMessages failing_gmail (Some [''m1'']) [] = [Call (BatchModify [''m1''] [] [''INBOX''])]
   \<and> snd (mutate_chunk_spec failing_gmail (BatchModify [''m1''] [''L''] []) [])
      = [Wait, Call (BatchModify [''m1''] [''L''] []), Sleep 1000,
         Call (BatchModify [''m1''] [''L''] []), Sleep 2000,
         Call (BatchModify [''m1''] [''L''] []), Sleep 4000,
         Call (BatchModify [''m1''] [''L''] [])]"
  by code_simp

text \<open>
  C6. The provider calls of \<open>applyLabel\<close> and of \<open>archiveMessages\<close> are one call per
  chunk, in list order, whatever the provider answers to each (a failed chunk does not
  stop the later ones). The chunks are consecutive (concatenated they give the list
  back), all of size 50 except a shorter last one; 123 ids give sizes 50, 50, 23.
\<close>

theorem batch_chunking:
  "calls_of (applyLabel gmail (Some ids) labelId [])
     = map (\<lambda>batch. BatchModify batch [labelId] []) (chunks ids)
   \<and> calls_of (archiveMessages gmail (Some ids) [])
     = map (\<lambda>batch. BatchModify batch [] [''INBOX'']) (chunks ids)
   \<and> concat (chunks ids) = ids
   \<and> map length (chunks ids)
     = replicate (length ids div 50) 50 @ (if length ids mod 50 = 0 then [] else [length ids mod 50])
   \<and> (length ids = 123 \<longrightarrow> map length (chunks ids) = [50, 50, 23])"
proof -
  have "map length (chunks ids) = [50, 50, 23]" if "length ids = 123"
    by (simp add: length_chunks that numeral_2_eq_2)
  then show ?thesis
    using length_chunks[of ids]
    by (simp add: applyLabel_trace archiveMessages_trace concat_chunks)
qed

text \<open>
  The theorem at a list of 123 ids and a provider that fails every call: three calls,
  of 50, 50 and 23 ids.
\<close>

theorem batch_chunking_witness:
  "length (replicate 123 ''m'') = 123
   \<and> map length (chunks (replicate 123 ''m'')) = [50, 50, 23]
   \<and> calls_of (applyLabel failing_gmail (Some (replicate 123 ''m'')) ''L'' [])
      = [BatchModify (replicate 50 ''m'') [''L''] [], BatchModify (replicate 50 ''m'') [''L''] [],
         BatchModify (replicate 23 ''m'') [''L''] []]"
proof -
  have c: "chunks (replicate 123 ''m'') = [replicate 50 ''m'', replicate 50 ''m'', replicate 23 ''m'']"
    by (simp add: chunks.simps[of "replicate _ _"] chunks.simps[of "[]"])
  show ?thesis
    using batch_chunking[of failing_gmail "replicate 123 ''m''" "''L''"]
    by (simp add: c)
qed

text \<open>
  C9. For a missing and for an empty list of message ids, \<open>applyLabel\<close> and
  \<open>archiveMessages\<close> return at once: the trace is unchanged, so no provider call is made.
\<close>

theorem batch_empty_no_call:
  "applyLabel gmail None labelId tr = tr \<and> applyLabel gmail (Some []) labelId tr = tr
   \<and> archiveMessages gmail None tr = tr \<and> archiveMessages gmail (Some []) tr = tr"
  by (simp add: applyLabel_def archiveMessages_def)

section \<open>Checkpoint\<close>

text \<open>
  C8. Without a stored checkpoint, \<open>loadCheckpoint\<close> returns the defaults: no date,
  zero processed, no last run. Updating with what was just loaded leaves
  \<open>totalProcessed\<close> and \<open>lastProcessedDate\<close> as they were. For every partial update,
  \<open>lastRun\<close> becomes the current time, and every other field has the provided value if
  one is provided and the stored value otherwise; the result is what is saved.
\<close>

theorem checkpoint_merge:
  "loadCheckpoint None ''lastProcessedDate'' = Some JNull
   \<and> loadCheckpoint None ''totalProcessed'' = Some (JNum 0)
   \<and> loadCheckpoint None ''lastRun'' = Some JNull
   \<and> dom (loadCheckpoint None) = {''lastProcessedDate'', ''totalProcessed'', ''lastRun''}
   \<and> fst (updateCheckpoint now (loadCheckpoint file) file) ''totalProcessed''
       = loadCheckpoint file ''totalProcessed''
   \<and> fst (updateCheckpoint now (loadCheckpoint file) file) ''lastProcessedDate''
       = loadCheckpoint file ''lastProcessedDate''
   \<and> fst (updateCheckpoint now newData file) ''lastRun'' = Some (JStr now)
   \<and> (\<forall>k. k \<noteq> ''lastRun'' \<longrightarrow>
         fst (updateCheckpoint now newData file) k
           = (case newData k of Some v \<Rightarrow> Some v | None \<Rightarrow> loadCheckpoint file k))
   \<and> loadCheckpoint (snd (updateCheckpoint now newData file)) = fst (updateCheckpoint now newData file)"
  by (auto simp: loadCheckpoint_def default_checkpoint_def updateCheckpoint_def Let_def
      saveCheckpoint_def map_add_def split: option.splits)

text \<open>
  The theorem at a stored checkpoint and an update of \<open>totalProcessed\<close> alone: the
  count is overwritten, the date is kept.
\<close>

theorem checkpoint_merge_witness:
  "''totalProcessed'' \<noteq> ''lastRun'' \<and> ''lastProcessedDate'' \<noteq> ''lastRun''
   \<and> fst (updateCheckpoint ''2026-01-02T08:00:00.000Z'' [''totalProcessed'' \<mapsto> JNum 700]
            (Some [''lastProcessedDate'' \<mapsto> JStr ''2026-01-01'', ''totalProcessed'' \<mapsto> JNum 500,
                   ''lastRun'' \<mapsto> JStr ''2026-01-01T08:00:00.000Z'']))
        ''totalProcessed'' = Some (JNum 700)
   \<and> fst (updateCheckpoint ''2026-01-02T08:00:00.000Z'' [''totalProcessed'' \<mapsto> JNum 700]
            (Some [''lastProcessedDate'' \<mapsto> JStr ''2026-01-01'', ''totalProcessed'' \<mapsto> JNum 500,
                   ''lastRun'' \<mapsto> JStr ''2026-01-01T08:00:00.000Z'']))
        ''lastProcessedDate'' = Some (JStr ''2026-01-01'')"
  using checkpoint_merge
          [of "''2026-01-02T08:00:00.000Z''"
              "Some [''lastProcessedDate'' \<mapsto> JStr ''2026-01-01'', ''totalProcessed'' \<mapsto> JNum 500,
                     ''lastRun'' \<mapsto> JStr ''2026-01-01T08:00:00.000Z'']"
              "[''totalProcessed'' \<mapsto> JNum 700]"]
  by (simp add: loadCheckpoint_def)

section \<open>Rule synthesis\<close>

subsection \<open>Counting senders\<close>

lemma bump_fst_set: "fst ` set (bump k acc) = insert k (fst ` set acc)"
proof (induction acc)
  case Nil
  show ?case by simp
next
  case (Cons p acc)
  obtain k' n where p: "p = (k', n)" by (cases p)
  show ?case using Cons.IH by (cases "k' = k") (simp_all add: p insert_commute)
qed

lemma bump_distinct: "distinct (map fst acc) \<Longrightarrow> distinct (map fst (bump k acc))"
  by (induction acc) (auto simp: bump_fst_set)

lemma map_of_bump:
  "map_of (bump k acc) = (map_of acc)(k \<mapsto> (case map_of acc k of None \<Rightarrow> 1 | Some n \<Rightarrow> n + 1))"
  by (induction acc) (auto simp: fun_eq_iff)

lemma fold_senderCount:
  "distinct (map fst acc) \<Longrightarrow>
   distinct (map fst (fold (\<lambda>email acc. if an_fromEmail email \<noteq> [] then bump (an_fromEmail email) acc else acc) emails acc))
   \<and> (\<forall>s. s \<noteq> [] \<longrightarrow> counted (fold (\<lambda>email acc. if an_fromEmail email \<noteq> [] then bump (an_fromEmail email) acc else acc) emails acc) s
        = counted acc s + frequency s emails)"
proof (induction emails arbitrary: acc)
  case Nil
  then show ?case by (simp add: frequency_def)
next
  case (Cons e es)
  show ?case
  proof (cases "an_fromEmail e = []")
    case True
    with Cons.IH[OF Cons.prems] show ?thesis by (auto simp: frequency_def)
  next
    case False
    have d: "distinct (map fst (bump (an_fromEmail e) acc))"
      using Cons.prems by (rule bump_distinct)
    have c: "counted (bump (an_fromEmail e) acc) s = counted acc s + (if an_fromEmail e = s then 1 else 0)" for s
      by (simp add: counted_def map_of_bump split: option.splits)
    from Cons.IH[OF d] False show ?thesis
      by (simp add: c frequency_def)
  qed
qed

lemma senderCount_member:
  assumes "(s, n) \<in> set (senderCount emails)" "s \<noteq> []"
  shows "n = frequency s emails"
proof -
  have d: "distinct (map fst (senderCount emails))"
    and c: "counted (senderCount emails) s = frequency s emails"
    using fold_senderCount[of "[]" emails] assms(2) by (simp_all add: senderCount_def counted_def)
  from d assms(1) have "map_of (senderCount emails) s = Some n" by simp
  with c show ?thesis by (simp add: counted_def)
qed

lemma fold_bump_keys_nonempty:
  "[] \<notin> fst ` set acc \<Longrightarrow>
   [] \<notin> fst ` set (fold (\<lambda>email acc. if an_fromEmail email \<noteq> []
                                then bump (an_fromEmail email) acc else acc) emails acc)"
proof (induction emails arbitrary: acc)
  case Nil
  then show ?case by simp
next
  case (Cons e es)
  show ?case
  proof (cases "an_fromEmail e = []")
    case True
    with Cons show ?thesis by simp
  next
    case False
    with Cons.prems have "[] \<notin> fst ` set (bump (an_fromEmail e) acc)"
      by (simp add: bump_fst_set)
    from Cons.IH[OF this] False show ?thesis by simp
  qed
qed

lemma senderCount_keys_nonempty: "(s, n) \<in> set (senderCount emails) \<Longrightarrow> s \<noteq> []"
  using fold_bump_keys_nonempty[of "[]" emails] by (force simp: senderCount_def)

lemma set_Object_entries: "set (Object_entries kvs) = set kvs"
  by (auto simp: Object_entries_def)

lemma getFrequentSenders_frequency:
  assumes "s \<in> set (getFrequentSenders emails m)"
  shows "m \<le> frequency s emails"
proof -
  from assms obtain n where n: "(s, n) \<in> set (senderCount emails)" "m \<le> n"
    by (auto simp: getFrequentSenders_def set_Object_entries)
  from n(1) have "s \<noteq> []" by (rule senderCount_keys_nonempty)
  with n(1) have "n = frequency s emails" by (rule senderCount_member)
  with n(2) show ?thesis by simp
qed

lemma senderCount_single:
  assumes "\<forall>e \<in> set emails. an_fromEmail e = s" "s \<noteq> []" "emails \<noteq> []"
  shows "senderCount emails = [(s, length emails)]"
proof -
  have f: "\<forall>e \<in> set es. an_fromEmail e = s \<Longrightarrow>
     fold (\<lambda>email acc. if an_fromEmail email \<noteq> [] then bump (an_fromEmail email) acc else acc) es [(s, k)]
       = [(s, k + length es)]" for es k
    using assms(2) by (induction es arbitrary: k) simp_all
  from assms obtain e es where "emails = e # es" by (cases emails) auto
  with assms f[of es 1] show ?thesis by (simp add: senderCount_def)
qed

lemma getFrequentSenders_single:
  assumes "\<forall>e \<in> set emails. an_fromEmail e = ''newsletter@x.com''" "3 \<le> length emails"
  shows "getFrequentSenders emails 3 = [''newsletter@x.com'']"
proof -
  have "emails \<noteq> []" using assms(2) by auto
  with assms(1) have s: "senderCount emails = [(''newsletter@x.com'', length emails)]"
    by (intro senderCount_single) simp_all
  have n: "\<not> is_array_index ''newsletter@x.com''"
    by code_simp
  have p: "''newsletter@x.com'' \<notin> set Object_prototype_keys"
    by code_simp
  show ?thesis
    using assms(2) by (simp add: getFrequentSenders_def s Object_entries_def n p)
qed


subsection \<open>The provider calls of createFilters\<close>

lemma create_filter_calls:
  "set (calls_of (snd (create_filter gmail labels labelName sender tr)))
     \<subseteq> set (calls_of tr) \<union> {c. \<exists>x y. c = FiltersCreate sender x y}"
  by (auto simp: create_filter_def api_def split: option.splits)

lemma filterExists_calls:
  "set (calls_of (snd (snd (filterExists gmail sender st)))) \<subseteq> set (calls_of (snd st)) \<union> {FiltersList}"
  by (cases st)
    (auto simp: filterExists_def getExistingFilters_def api_def Let_def
      split: option.splits prod.splits sum.splits)

lemma create_loop_calls:
  "set (calls_of (snd (snd (create_loop gmail prot labels labelName senders n st))))
     \<subseteq> set (calls_of (snd st)) \<union> {FiltersList} \<union> creates_for (set senders)"
proof (induction senders arbitrary: n st)
  case Nil
  show ?case by auto
next
  case (Cons sender rest)
  obtain r cache tr where fe: "filterExists gmail sender st = (r, (cache, tr))"
    by (metis prod.exhaust)
  have t1: "set (calls_of tr) \<subseteq> set (calls_of (snd st)) \<union> {FiltersList}"
    using filterExists_calls[of gmail sender st] fe by simp
  have mono: "creates_for (set rest) \<subseteq> creates_for (set (sender # rest))"
    by (auto simp: creates_for_def)
  show ?case
  proof (cases r)
    case (Inl e)
    with fe t1 show ?thesis by auto
  next
    case (Inr b)
    show ?thesis
    proof (cases "b \<or> EmailFilter_isProtectedSender prot sender")
      case True
      then have "create_loop gmail prot labels labelName (sender # rest) n st
                 = create_loop gmail prot labels labelName rest n (cache, tr)"
        using fe Inr by (auto split: bool.splits)
      with Cons.IH[of n "(cache, tr)"] t1 mono show ?thesis by auto
    next
      case False
      obtain r2 tr2 where w: "withRetry (create_filter gmail labels labelName sender) 3 1000 (tr @ [Wait]) = (r2, tr2)"
        by (metis prod.exhaust)
      have t2: "set (calls_of tr2) \<subseteq> set (calls_of tr) \<union> {c. \<exists>x y. c = FiltersCreate sender x y}"
        using withRetry_from_calls[of "create_filter gmail labels labelName sender"
                "{c. \<exists>x y. c = FiltersCreate sender x y}" 3 1000 0 "tr @ [Wait]", OF create_filter_calls] w
        by (simp add: withRetry_def)
      have here: "{c. \<exists>x y. c = FiltersCreate sender x y} \<subseteq> creates_for (set (sender # rest))"
        by (auto simp: creates_for_def)
      obtain n' where step: "create_loop gmail prot labels labelName (sender # rest) n st
                 = create_loop gmail prot labels labelName rest n' (cache, tr2)"
        using fe Inr False w by (cases r2) (auto split: bool.splits)
      have ih: "set (calls_of (snd (snd (create_loop gmail prot labels labelName rest n' (cache, tr2)))))
                  \<subseteq> set (calls_of tr2) \<union> {FiltersList} \<union> creates_for (set rest)"
        using Cons.IH[of n' "(cache, tr2)"] by simp
      show ?thesis
        unfolding step using ih t1 t2 mono here by blast
    qed
  qed
qed

lemma create_for_calls:
  "set (calls_of (snd (snd (create_for gmail prot labels labelName emails n st))))
     \<subseteq> set (calls_of (snd st)) \<union> {FiltersList}
       \<union> creates_for {s. length emails > 5 \<and> 3 \<le> frequency s emails}"
proof (cases "length emails > 5")
  case False
  then show ?thesis by (auto simp: create_for_def)
next
  case True
  have "creates_for (set (getFrequentSenders emails 3))
          \<subseteq> creates_for {s. length emails > 5 \<and> 3 \<le> frequency s emails}"
    using True by (auto simp: creates_for_def dest: getFrequentSenders_frequency)
  with create_loop_calls[of gmail prot labels labelName "getFrequentSenders emails 3" n st] True
  show ?thesis by (auto simp: create_for_def)
qed

lemma createFilters_calls:
  "set (calls_of (snd (snd (createFilters gmail prot stats labels st))))
     \<subseteq> set (calls_of (snd st)) \<union> {FiltersList}
       \<union> creates_for {s. \<exists>cat \<in> {newsletters stats, promotional stats, automated stats}.
                           length cat > 5 \<and> 3 \<le> frequency s cat}"
proof -
  let ?S = "{s. \<exists>cat \<in> {newsletters stats, promotional stats, automated stats}.
                           length cat > 5 \<and> 3 \<le> frequency s cat}"
  have sub: "creates_for {s. length cat > 5 \<and> 3 \<le> frequency s cat} \<subseteq> creates_for ?S"
    if "cat \<in> {newsletters stats, promotional stats, automated stats}" for cat
    using that by (auto simp: creates_for_def)
  obtain r1 st1 where c1: "create_for gmail prot labels ''Filtered/Newsletters'' (newsletters stats) 0 st = (r1, st1)"
    by (metis prod.exhaust)
  have s1: "set (calls_of (snd st1)) \<subseteq> set (calls_of (snd st)) \<union> {FiltersList} \<union> creates_for ?S"
    using create_for_calls[of gmail prot labels "''Filtered/Newsletters''" "newsletters stats" 0 st]
      sub[of "newsletters stats"] c1 by auto
  show ?thesis
  proof (cases r1)
    case (Inl e)
    with c1 s1 show ?thesis by (simp add: createFilters_def)
  next
    case (Inr n1)
    obtain r2 st2 where c2: "create_for gmail prot labels ''Filtered/Promotional'' (promotional stats) n1 st1 = (r2, st2)"
      by (metis prod.exhaust)
    have s2: "set (calls_of (snd st2)) \<subseteq> set (calls_of (snd st)) \<union> {FiltersList} \<union> creates_for ?S"
      using create_for_calls[of gmail prot labels "''Filtered/Promotional''" "promotional stats" n1 st1]
        sub[of "promotional stats"] c2 s1 by auto
    show ?thesis
    proof (cases r2)
      case (Inl e)
      with c1 c2 \<open>r1 = Inr n1\<close> s2 show ?thesis by (simp add: createFilters_def)
    next
      case (Inr n2)
      have "set (calls_of (snd (snd (create_for gmail prot labels ''Filtered/Automated'' (automated stats) n2 st2))))
             \<subseteq> set (calls_of (snd st)) \<union> {FiltersList} \<union> creates_for ?S"
        using create_for_calls[of gmail prot labels "''Filtered/Automated''" "automated stats" n2 st2]
          sub[of "automated stats"] s2 by auto
      with c1 c2 \<open>r1 = Inr n1\<close> Inr show ?thesis by (simp add: createFilters_def)
    qed
  qed
qed


subsection \<open>Ten newsletters from one sender\<close>

lemma createFilters_newsletter_run:
  assumes len: "length (newsletters stats) = 10"
    and same: "\<forall>e \<in> set (newsletters stats). an_fromEmail e = ''newsletter@x.com''"
    and others: "promotional stats = []" "automated stats = []"
    and listing: "gmail [] FiltersList = Inr (RFilters (Some fs))"
  shows "list_ex (criteria_from_is ''newsletter@x.com'') fs \<Longrightarrow>
           createFilters gmail prot stats labels (None, []) = (Inr 0, (Some fs, [Call FiltersList]))"
    and "\<lbrakk>\<not> list_ex (criteria_from_is ''newsletter@x.com'') fs;
          \<not> EmailFilter_isProtectedSender prot ''newsletter@x.com'';
          labels ''Filtered/Newsletters'' = Some l;
          gmail [Call FiltersList, Wait]
            (FiltersCreate ''newsletter@x.com'' [label_id l] [''INBOX'']) = Inr response\<rbrakk> \<Longrightarrow>
           createFilters gmail prot stats labels (None, [])
             = (Inr 1, (Some fs, [Call FiltersList, Wait,
                  Call (FiltersCreate ''newsletter@x.com'' [label_id l] [''INBOX''])]))"
proof -
  have senders: "getFrequentSenders (newsletters stats) 3 = [''newsletter@x.com'']"
    using same len by (intro getFrequentSenders_single) simp_all
  have fe: "filterExists gmail ''newsletter@x.com'' (None, [])
              = (Inr (list_ex (criteria_from_is ''newsletter@x.com'') fs), (Some fs, [Call FiltersList]))"
    by (simp add: filterExists_def getExistingFilters_def api_def listing)
  show "createFilters gmail prot stats labels (None, []) = (Inr 0, (Some fs, [Call FiltersList]))"
    if "list_ex (criteria_from_is ''newsletter@x.com'') fs"
    using that by (simp add: createFilters_def create_for_def len others senders fe)
  show "createFilters gmail prot stats labels (None, [])
             = (Inr 1, (Some fs, [Call FiltersList, Wait,
                  Call (FiltersCreate ''newsletter@x.com'' [label_id l] [''INBOX''])]))"
    if n: "\<not> list_ex (criteria_from_is ''newsletter@x.com'') fs"
      and p: "\<not> EmailFilter_isProtectedSender prot ''newsletter@x.com''"
      and lab: "labels ''Filtered/Newsletters'' = Some l"
      and ok: "gmail [Call FiltersList, Wait]
            (FiltersCreate ''newsletter@x.com'' [label_id l] [''INBOX'']) = Inr response"
  proof -
    have "create_filter gmail labels ''Filtered/Newsletters'' ''newsletter@x.com'' [Call FiltersList, Wait]
            = (Inr response, [Call FiltersList, Wait,
                  Call (FiltersCreate ''newsletter@x.com'' [label_id l] [''INBOX''])])"
      by (simp add: create_filter_def lab api_def ok)
    then have w: "withRetry (create_filter gmail labels ''Filtered/Newsletters'' ''newsletter@x.com'')
                    3 1000 [Call FiltersList, Wait]
            = (Inr response, [Call FiltersList, Wait,
                  Call (FiltersCreate ''newsletter@x.com'' [label_id l] [''INBOX''])])"
      by (rule withRetry_first_success)
    show ?thesis
      using n p by (simp add: createFilters_def create_for_def len others senders fe w)
  qed
qed

lemma ten_newsletters:
  "length (newsletters (stats_of_newsletters (replicate 10 (newsletter_from ''newsletter@x.com'')))) = 10"
  "\<forall>e \<in> set (newsletters (stats_of_newsletters (replicate 10 (newsletter_from ''newsletter@x.com'')))).
      an_fromEmail e = ''newsletter@x.com''"
  "promotional (stats_of_newsletters (replicate 10 (newsletter_from ''newsletter@x.com''))) = []"
  "automated (stats_of_newsletters (replicate 10 (newsletter_from ''newsletter@x.com''))) = []"
  by (simp_all add: stats_of_newsletters_def newsletter_from_def)

lemma newsletter_x_not_protected: "\<not> EmailFilter_isProtectedSender [] ''newsletter@x.com''"
  by code_simp

text \<open>
  C7. Every create request that \<open>createFilters\<close> issues is for a sender that occurs at
  least 3 times in one of the three categories it looks at (newsletters, promotional,
  automated), and that category has more than 5 messages. For 10 newsletter messages
  from \<open>newsletter@x.com\<close> and nothing else, a sender that is not protected, the
  newsletter label in place and a provider that lists the existing filters: when no
  existing filter has that \<open>from\<close> and the provider accepts the request, exactly one
  create request is issued, for that sender, and the count returned is 1; when an
  existing filter has that \<open>from\<close>, no create request is issued and the count is 0.
\<close>

theorem createFilters_candidates:
  "(\<forall>s x y. FiltersCreate s x y
         \<in> set (calls_of (snd (snd (createFilters gmail prot stats labels (cache, [])))))
       \<longrightarrow> (\<exists>cat \<in> {newsletters stats, promotional stats, automated stats}.
              length cat > 5 \<and> 3 \<le> frequency s cat))
   \<and> (length (newsletters stats) = 10
      \<and> (\<forall>e \<in> set (newsletters stats). an_fromEmail e = ''newsletter@x.com'')
      \<and> promotional stats = [] \<and> automated stats = []
      \<and> \<not> EmailFilter_isProtectedSender prot ''newsletter@x.com''
      \<and> labels ''Filtered/Newsletters'' = Some l
      \<and> gmail [] FiltersList = Inr (RFilters (Some fs)) \<longrightarrow>
        (\<not> list_ex (criteria_from_is ''newsletter@x.com'') fs
           \<and> gmail [Call FiltersList, Wait]
               (FiltersCreate ''newsletter@x.com'' [label_id l] [''INBOX'']) = Inr response \<longrightarrow>
           createFilters gmail prot stats labels (None, [])
             = (Inr 1, (Some fs, [Call FiltersList, Wait,
                  Call (FiltersCreate ''newsletter@x.com'' [label_id l] [''INBOX''])])))
        \<and> (list_ex (criteria_from_is ''newsletter@x.com'') fs \<longrightarrow>
           createFilters gmail prot stats labels (None, []) = (Inr 0, (Some fs, [Call FiltersList]))))"
proof (intro conjI allI impI)
  fix s x y
  assume "FiltersCreate s x y
         \<in> set (calls_of (snd (snd (createFilters gmail prot stats labels (cache, [])))))"
  with createFilters_calls[of gmail prot stats labels "(cache, [])"]
  have "FiltersCreate s x y \<in> creates_for {s. \<exists>cat \<in> {newsletters stats, promotional stats, automated stats}.
                           length cat > 5 \<and> 3 \<le> frequency s cat}"
    by auto
  then show "\<exists>cat \<in> {newsletters stats, promotional stats, automated stats}.
              length cat > 5 \<and> 3 \<le> frequency s cat"
    by (simp add: creates_for_def)
next
  assume a: "length (newsletters stats) = 10
      \<and> (\<forall>e \<in> set (newsletters stats). an_fromEmail e = ''newsletter@x.com'')
      \<and> promotional stats = [] \<and> automated stats = []
      \<and> \<not> EmailFilter_isProtectedSender prot ''newsletter@x.com''
      \<and> labels ''Filtered/Newsletters'' = Some l
      \<and> gmail [] FiltersList = Inr (RFilters (Some fs))"
    and b: "\<not> list_ex (criteria_from_is ''newsletter@x.com'') fs
           \<and> gmail [Call FiltersList, Wait]
               (FiltersCreate ''newsletter@x.com'' [label_id l] [''INBOX'']) = Inr response"
  from a b show "createFilters gmail prot stats labels (None, [])
             = (Inr 1, (Some fs, [Call FiltersList, Wait,
                  Call (FiltersCreate ''newsletter@x.com'' [label_id l] [''INBOX''])]))"
    by (intro createFilters_newsletter_run(2)) simp_all
next
  assume a: "length (newsletters stats) = 10
      \<and> (\<forall>e \<in> set (newsletters stats). an_fromEmail e = ''newsletter@x.com'')
      \<and> promotional stats = [] \<and> automated stats = []
      \<and> \<not> EmailFilter_isProtectedSender prot ''newsletter@x.com''
      \<and> labels ''Filtered/Newsletters'' = Some l
      \<and> gmail [] FiltersList = Inr (RFilters (Some fs))"
    and b: "list_ex (criteria_from_is ''newsletter@x.com'') fs"
  from a b show "createFilters gmail prot stats labels (None, []) = (Inr 0, (Some fs, [Call FiltersList]))"
    by (intro createFilters_newsletter_run(1)) simp_all
qed


theorem createFilters_candidates_witness:
  "createFilters (listing_gmail []) []
      (stats_of_newsletters (replicate 10 (newsletter_from ''newsletter@x.com'')))
      newsletters_label (None, [])
     = (Inr 1, (Some [], [Call FiltersList, Wait,
          Call (FiltersCreate ''newsletter@x.com'' [''Label_1''] [''INBOX''])]))
   \<and> createFilters (listing_gmail [GFilter (Some (Criteria (Some ''newsletter@x.com'')))]) []
      (stats_of_newsletters (replicate 10 (newsletter_from ''newsletter@x.com'')))
      newsletters_label (None, [])
     = (Inr 0, (Some [GFilter (Some (Criteria (Some ''newsletter@x.com'')))], [Call FiltersList]))"
  using createFilters_candidates
          [of "listing_gmail []" "[]"
              "stats_of_newsletters (replicate 10 (newsletter_from ''newsletter@x.com''))"
              newsletters_label None
              "\<lparr>label_id = ''Label_1'', label_name = ''Filtered/Newsletters''\<rparr>" "[]" RDone]
        createFilters_candidates
          [of "listing_gmail [GFilter (Some (Criteria (Some ''newsletter@x.com'')))]" "[]"
              "stats_of_newsletters (replicate 10 (newsletter_from ''newsletter@x.com''))"
              newsletters_label None
              "\<lparr>label_id = ''Label_1'', label_name = ''Filtered/Newsletters''\<rparr>"
              "[GFilter (Some (Criteria (Some ''newsletter@x.com'')))]" RDone]
        ten_newsletters newsletter_x_not_protected
  by (simp add: listing_gmail_def newsletters_label_def criteria_from_is_def)

text \<open>
  C3. \<open>filterExists\<close> compares with \<open>===\<close>. With an existing filter whose \<open>from\<close> is
  \<open>Newsletter@X.com\<close> and 10 newsletter messages from \<open>newsletter@x.com\<close>, the same
  address when case is ignored, \<open>createFilters\<close> issues a create request for
  \<open>newsletter@x.com\<close> and counts one filter created.
\<close>

theorem createFilters_duplicate_in_other_case:
  "toLowerCase ''Newsletter@X.com'' = toLowerCase ''newsletter@x.com''
   \<and> createFilters (listing_gmail [GFilter (Some (Criteria (Some ''Newsletter@X.com'')))]) []
      (stats_of_newsletters (replicate 10 (newsletter_from ''newsletter@x.com'')))
      newsletters_label (None, [])
     = (Inr 1, (Some [GFilter (Some (Criteria (Some ''Newsletter@X.com'')))],
          [Call FiltersList, Wait,
           Call (FiltersCreate ''newsletter@x.com'' [''Label_1''] [''INBOX''])]))"
proof -
  have l: "toLowerCase ''Newsletter@X.com'' = toLowerCase ''newsletter@x.com''"
    by code_simp
  have c: "createFilters (listing_gmail [GFilter (Some (Criteria (Some ''Newsletter@X.com'')))]) []
      (stats_of_newsletters (replicate 10 (newsletter_from ''newsletter@x.com'')))
      newsletters_label (None, [])
     = (Inr 1, (Some [GFilter (Some (Criteria (Some ''Newsletter@X.com'')))],
          [Call FiltersList, Wait,
           Call (FiltersCreate ''newsletter@x.com'' [label_id \<lparr>label_id = ''Label_1'', label_name = ''Filtered/Newsletters''\<rparr>] [''INBOX''])]))"
    using ten_newsletters newsletter_x_not_protected
    by (intro createFilters_newsletter_run(2)[where response = RDone])
       (simp_all add: listing_gmail_def newsletters_label_def criteria_from_is_def)
  from l c show ?thesis by simp
qed

section \<open>Degenerate headers\<close>














end
